theory Spec2Isabelle
  imports Main "HOL-Library.AList" "HOL-Library.Multiset"
begin

section \<open>Data model of the library system (project.py)\<close>

text \<open>
  Python strings are modelled as \<open>string\<close>: a text is the list of the bytes of its UTF-8
  encoding, so that two strings are equal exactly when the texts are. A Python \<open>dict\<close> keeps its keys in insertion order and is
  modelled as an association list, read with \<open>map_of\<close>; an object stored in a dict and
  mutated in place is an entry rewritten where it stands (\<open>AList.map_entry\<close>), so the
  order of the keys never changes.
\<close>

record book =
  book_id :: string
  title :: string
  author :: string
  genre :: string
  available :: bool

record borrower =
  borrower_id :: string
  name :: string
  email :: string
  borrowed_books :: "string list"

text \<open>
  The \<open>Library\<close> object: its two dicts. The library's name and the two file paths are
  set once by the constructor and read by no operation modelled here.
\<close>

record library =
  books :: "(string \<times> book) list"
  borrowers :: "(string \<times> borrower) list"

datatype py_error = ValueError | IndexError

subsection \<open>Helper functions\<close>

text \<open>
  \<open>str.split(sep)\<close> for a separator of one character: the pieces between the
  occurrences of the separator, at least one piece.
\<close>

fun split_on :: "char \<Rightarrow> string \<Rightarrow> string list" where
  "split_on c [] = [[]]"
| "split_on c (x # xs) =
     (if x = c then [] # split_on c xs
      else (case split_on c xs of p # ps \<Rightarrow> (x # p) # ps | [] \<Rightarrow> [[x]]))"

text \<open>
  \<open>int(s)\<close> on an ASCII string without \<open>_\<close> (the split has removed them): blanks around,
  one optional sign, then one or more decimal digits; anything else raises \<open>ValueError\<close>.
\<close>

definition py_isspace :: "char \<Rightarrow> bool" where
  "py_isspace c \<longleftrightarrow> c \<in> set [CHR 0x09, CHR 0x0A, CHR 0x0B, CHR 0x0C, CHR 0x0D, CHR '' '']"

definition digit_val :: "char \<Rightarrow> nat option" where
  "digit_val = map_of (zip ''0123456789'' [0, 1, 2, 3, 4, 5, 6, 7, 8, 9])"

fun parse_digits :: "nat \<Rightarrow> string \<Rightarrow> nat option" where
  "parse_digits acc [] = Some acc"
| "parse_digits acc (c # cs) =
     (case digit_val c of None \<Rightarrow> None | Some d \<Rightarrow> parse_digits (10 * acc + d) cs)"

definition py_strip :: "string \<Rightarrow> string" where
  "py_strip s = rev (dropWhile py_isspace (rev (dropWhile py_isspace s)))"

definition py_int :: "string \<Rightarrow> py_error + int" where
  "py_int s =
     (let t = py_strip s;
          neg = (t \<noteq> [] \<and> hd t = CHR ''-'');
          ds = (if t \<noteq> [] \<and> (hd t = CHR ''-'' \<or> hd t = CHR ''+'') then tl t else t)
      in if ds = [] then Inl ValueError
         else (case parse_digits 0 ds of
                 None \<Rightarrow> Inl ValueError
               | Some n \<Rightarrow> Inr (if neg then - int n else int n)))"

text \<open>The format \<open>:04d\<close>: decimal digits, the sign first, zeros up to a width of four.\<close>

definition digit_char :: "nat \<Rightarrow> char" where
  "digit_char d = ''0123456789'' ! d"

function dec :: "nat \<Rightarrow> string" where
  "dec n = (if n < 10 then [digit_char n] else dec (n div 10) @ [digit_char (n mod 10)])"
  by pat_completeness auto
termination
  by (relation "measure id") auto

declare dec.simps [simp del]

definition zfill :: "nat \<Rightarrow> string \<Rightarrow> string" where
  "zfill w ds = replicate (w - length ds) CHR ''0'' @ ds"

definition fmt_04d :: "int \<Rightarrow> string" where
  "fmt_04d x = (if x < 0 then CHR ''-'' # zfill 3 (dec (nat (- x))) else zfill 4 (dec (nat x)))"

text \<open>
  \<open>generate_id\<close>. The comprehension takes the second piece of every id of the list,
  whatever its prefix, and converts it; the first id without a second piece raises
  \<open>IndexError\<close>, the first whose piece is no number raises \<open>ValueError\<close>.
\<close>

definition suffix_number :: "string \<Rightarrow> py_error + int" where
  "suffix_number i =
     (case split_on CHR ''_'' i of a # b # rest \<Rightarrow> py_int b | _ \<Rightarrow> Inl IndexError)"

fun numbers_of :: "string list \<Rightarrow> py_error + int list" where
  "numbers_of [] = Inr []"
| "numbers_of (i # is) =
     (case suffix_number i of
        Inl e \<Rightarrow> Inl e
      | Inr n \<Rightarrow> (case numbers_of is of Inl e \<Rightarrow> Inl e | Inr ns \<Rightarrow> Inr (n # ns)))"

text \<open>
  \<open>max(numbers)\<close>. The list is never empty where \<open>generate_id\<close> calls it (the empty list
  of ids has returned before); the first equation only makes the function total.
\<close>

fun py_max :: "int list \<Rightarrow> int" where
  "py_max [] = 0"
| "py_max (n # ns) = fold max ns n"

definition generate_id :: "string \<Rightarrow> string list \<Rightarrow> py_error + string" where
  "generate_id prefix existing_ids =
     (if existing_ids = [] then Inr (prefix @ ''_0001'')
      else (case numbers_of existing_ids of
              Inl e \<Rightarrow> Inl e
            | Inr numbers \<Rightarrow> Inr (prefix @ ''_'' @ fmt_04d (py_max numbers + 1))))"

text \<open>The id with prefix \<open>p\<close> and number \<open>n\<close>, as \<open>generate_id\<close> writes it.\<close>

definition make_id :: "string \<Rightarrow> nat \<Rightarrow> string" where
  "make_id p n = p @ ''_'' @ fmt_04d (int n)"

text \<open>
  The values of the fields of a record and of the criteria: strings, booleans, integers
  and \<open>None\<close>. \<open>py_eq\<close> is Python's \<open>==\<close> on them (\<open>bool\<close> is a subtype of \<open>int\<close>, so that
  \<open>True == 1\<close>).
\<close>

datatype pyval = VStr string | VBool bool | VInt int | VNone

fun py_eq :: "pyval \<Rightarrow> pyval \<Rightarrow> bool" where
  "py_eq (VStr a) (VStr b) = (a = b)"
| "py_eq (VBool a) (VBool b) = (a = b)"
| "py_eq (VInt a) (VInt b) = (a = b)"
| "py_eq (VBool a) (VInt b) = ((if a then 1 else 0) = b)"
| "py_eq (VInt a) (VBool b) = (a = (if b then 1 else 0))"
| "py_eq VNone VNone = True"
| "py_eq _ _ = False"

text \<open>
  \<open>search_items\<close>. An item is a dict from field names to values, the criteria are the
  keyword arguments in the order given. The inner loop stops at the first criterion that
  fails (\<open>break\<close>); the outer loop appends the items that passed every criterion.

  \<open>str.lower\<close> is the interpreter's lowercase mapping of Unicode text, a function from
  strings to strings that the program only calls. It is the parameter \<open>lower\<close> of the
  functions below, and nothing is assumed of it: what is proved holds for the mapping of
  any interpreter, on every text.
\<close>

type_synonym item = "(string \<times> pyval) list"

fun criteria_match :: "(string \<Rightarrow> string) \<Rightarrow> item \<Rightarrow> (string \<times> pyval) list \<Rightarrow> bool" where
  "criteria_match lower item [] = True"
| "criteria_match lower item ((key, val) # rest) =
     (case map_of item key of
        None \<Rightarrow> False
      | Some item_val \<Rightarrow>
          (case (item_val, val) of
             (VStr a, VStr b) \<Rightarrow>
               if lower a \<noteq> lower b then False else criteria_match lower item rest
           | _ \<Rightarrow>
               if \<not> py_eq item_val val then False else criteria_match lower item rest))"

fun search_loop ::
  "(string \<Rightarrow> string) \<Rightarrow> item list \<Rightarrow> (string \<times> pyval) list \<Rightarrow> item list \<Rightarrow> item list" where
  "search_loop lower [] criteria results = results"
| "search_loop lower (item # items) criteria results =
     search_loop lower items criteria
       (if criteria_match lower item criteria then results @ [item] else results)"

definition search_items ::
  "(string \<Rightarrow> string) \<Rightarrow> item list \<Rightarrow> (string \<times> pyval) list \<Rightarrow> item list" where
  "search_items lower items criteria = search_loop lower items criteria []"



subsection \<open>Class Book\<close>

definition GENRES :: "string list" where
  "GENRES = [''Fiction'', ''Non-Fiction'', ''Science'', ''History'', ''Technology'']"

text \<open>\<open>Book.__init__\<close>: raises \<open>ValueError\<close> before any field is assigned.\<close>

definition Book_init :: "string \<Rightarrow> string \<Rightarrow> string \<Rightarrow> string \<Rightarrow> bool \<Rightarrow> py_error + book" where
  "Book_init bid t a g av =
     (if g \<notin> set GENRES then Inl ValueError
      else Inr \<lparr>book_id = bid, title = t, author = a, genre = g, available = av\<rparr>)"


subsection \<open>Class Borrower\<close>

definition MAX_BOOKS :: nat where
  "MAX_BOOKS = 3"

definition can_borrow :: "borrower \<Rightarrow> bool" where
  "can_borrow r = (length (borrowed_books r) < MAX_BOOKS)"

text \<open>
  \<open>Borrower.borrow_book\<close> and \<open>Borrower.return_book\<close> mutate the borrower and return a
  flag; the model returns the flag and the borrower after the call. \<open>list.remove\<close>
  deletes the first occurrence only, which is \<open>remove1\<close>.
\<close>

definition borrow_book :: "borrower \<Rightarrow> string \<Rightarrow> bool \<times> borrower" where
  "borrow_book r bid =
     (if \<not> can_borrow r then (False, r)
      else (True, r\<lparr>borrowed_books := borrowed_books r @ [bid]\<rparr>))"

definition Borrower_return_book :: "borrower \<Rightarrow> string \<Rightarrow> bool \<times> borrower" where
  "Borrower_return_book r bid =
     (if bid \<in> set (borrowed_books r)
      then (True, r\<lparr>borrowed_books := remove1 bid (borrowed_books r)\<rparr>)
      else (False, r))"

subsection \<open>Class Library\<close>

text \<open>
  \<open>Library.save\<close> rewrites the two JSON documents from the dicts. It reads the registry
  and does not assign to it, so on the in-memory state it is the identity; the files are
  not part of the state modelled here.
\<close>

definition save :: "library \<Rightarrow> library" where
  "save s = s"

text \<open>
  \<open>Library.checkout_book\<close>: the flag returned and the registry after the call. The value
  returned by \<open>borrower.borrow_book\<close> is dropped, as in the source.
\<close>

definition checkout_book :: "library \<Rightarrow> string \<Rightarrow> string \<Rightarrow> bool \<times> library" where
  "checkout_book s bid uid =
     (if map_of (books s) bid = None \<or> map_of (borrowers s) uid = None then (False, s)
      else
        (case (map_of (books s) bid, map_of (borrowers s) uid) of
           (Some b, Some r) \<Rightarrow>
             if \<not> available b \<or> \<not> can_borrow r then (False, s)
             else
               let s1 = s\<lparr>books := AList.map_entry bid (\<lambda>x. x\<lparr>available := False\<rparr>) (books s)\<rparr>;
                   s2 = s1\<lparr>borrowers :=
                          AList.map_entry uid (\<lambda>x. snd (borrow_book x bid)) (borrowers s1)\<rparr>
               in (True, save s2)
         | _ \<Rightarrow> (False, s)))"

text \<open>\<open>Library.return_book\<close>; the value of \<open>borrower.return_book\<close> is dropped as well.\<close>

definition return_book :: "library \<Rightarrow> string \<Rightarrow> string \<Rightarrow> bool \<times> library" where
  "return_book s bid uid =
     (if map_of (books s) bid = None \<or> map_of (borrowers s) uid = None then (False, s)
      else
        (case map_of (borrowers s) uid of
           Some r \<Rightarrow>
             if bid \<notin> set (borrowed_books r) then (False, s)
             else
               let s1 = s\<lparr>books := AList.map_entry bid (\<lambda>x. x\<lparr>available := True\<rparr>) (books s)\<rparr>;
                   s2 = s1\<lparr>borrowers :=
                          AList.map_entry uid (\<lambda>x. snd (Borrower_return_book x bid)) (borrowers s1)\<rparr>
               in (True, save s2)
         | None \<Rightarrow> (False, s)))"


text \<open>A sequence of calls on one library; the flags are dropped.\<close>

datatype call = Checkout string string | Return string string

fun step :: "library \<Rightarrow> call \<Rightarrow> library" where
  "step s (Checkout bid uid) = snd (checkout_book s bid uid)"
| "step s (Return bid uid) = snd (return_book s bid uid)"

definition run :: "library \<Rightarrow> call list \<Rightarrow> library" where
  "run s cs = foldl step s cs"

subsection \<open>Example registries\<close>

definition book1 :: book where
  "book1 = \<lparr>book_id = ''BOOK_0001'', title = ''A'', author = ''X'', genre = ''Fiction'',
            available = True\<rparr>"

definition book2 :: book where
  "book2 = \<lparr>book_id = ''BOOK_0002'', title = ''B'', author = ''Y'', genre = ''Science'',
            available = True\<rparr>"

definition joe :: borrower where
  "joe = \<lparr>borrower_id = ''USER_0001'', name = ''Joe'', email = ''j@x.com'',
          borrowed_books = []\<rparr>"

definition ann :: borrower where
  "ann = \<lparr>borrower_id = ''USER_0002'', name = ''Ann'', email = ''a@x.com'',
          borrowed_books = []\<rparr>"

definition lib0 :: library where
  "lib0 = \<lparr>books = [(''BOOK_0001'', book1), (''BOOK_0002'', book2)],
           borrowers = [(''USER_0001'', joe), (''USER_0002'', ann)]\<rparr>"

text \<open>Joe holds three books, the limit; one more book is free.\<close>

definition held :: "string \<Rightarrow> book" where
  "held k = \<lparr>book_id = k, title = ''T'', author = ''Z'', genre = ''History'', available = False\<rparr>"

definition lib3 :: library where
  "lib3 = \<lparr>books = [(''BOOK_0001'', held ''BOOK_0001''), (''BOOK_0002'', held ''BOOK_0002''),
                    (''BOOK_0003'', held ''BOOK_0003''),
                    (''BOOK_0004'', (held ''BOOK_0004'')\<lparr>available := True\<rparr>)],
           borrowers = [(''USER_0001'',
                         joe\<lparr>borrowed_books := [''BOOK_0001'', ''BOOK_0002'', ''BOOK_0003'']\<rparr>),
                        (''USER_0002'', ann)]\<rparr>"

text \<open>
  A registry outside the data model: Joe lists a book that is marked available.
\<close>

definition lib_stale :: library where
  "lib_stale = \<lparr>books = [(''BOOK_0001'', book1), (''BOOK_0002'', held ''BOOK_0002'')],
                borrowers = [(''USER_0001'',
                              joe\<lparr>borrowed_books := [''BOOK_0001'', ''BOOK_0002'']\<rparr>)]\<rparr>"

subsection \<open>Predicates used by the statements\<close>

text \<open>
  \<open>others_unchanged k xs ys\<close>: the dict \<open>ys\<close> has the keys of \<open>xs\<close> in the same order, and
  every entry whose key is not \<open>k\<close> is the same object with the same contents.
\<close>

definition others_unchanged :: "string \<Rightarrow> (string \<times> 'a) list \<Rightarrow> (string \<times> 'a) list \<Rightarrow> bool" where
  "others_unchanged k xs ys = list_all2 (\<lambda>p q. fst q = fst p \<and> (fst p \<noteq> k \<longrightarrow> q = p)) xs ys"

definition within_limit :: "library \<Rightarrow> bool" where
  "within_limit s = list_all (\<lambda>(u, r). length (borrowed_books r) \<le> MAX_BOOKS) (borrowers s)"



text \<open>
  \<open>holders s k\<close>: the ids of the borrowers whose \<open>borrowed_books\<close> list contains \<open>k\<close>, in
  the order of the borrowers dict.
\<close>

definition holders :: "library \<Rightarrow> string \<Rightarrow> string list" where
  "holders s k = map fst (filter (\<lambda>(u, r). k \<in> set (borrowed_books r)) (borrowers s))"

text \<open>
  A consistent registry, after the data model: the two lists are dicts (no key twice), a
  book is stored under its own \<open>book_id\<close>, \<open>borrowed_books\<close> is a set (no id twice), a
  book is held by at most one borrower, and it is unavailable exactly when it is held.
\<close>

definition consistent :: "library \<Rightarrow> bool" where
  "consistent s \<longleftrightarrow>
     distinct (map fst (books s)) \<and> distinct (map fst (borrowers s))
     \<and> list_all (\<lambda>(k, b). book_id b = k) (books s)
     \<and> list_all (\<lambda>(u, r). distinct (borrowed_books r)) (borrowers s)
     \<and> list_all (\<lambda>(k, b). if available b then holders s k = []
                               else length (holders s k) = 1) (books s)"

text \<open>The same conditions read through the lookups of the two dicts.\<close>

definition held_by :: "library \<Rightarrow> string \<Rightarrow> string \<Rightarrow> bool" where
  "held_by s k u \<longleftrightarrow> (\<exists>r. map_of (borrowers s) u = Some r \<and> k \<in> set (borrowed_books r))"

definition ledger_ok :: "library \<Rightarrow> bool" where
  "ledger_ok s \<longleftrightarrow>
     (\<forall>k b. map_of (books s) k = Some b \<longrightarrow> book_id b = k)
     \<and> (\<forall>u r. map_of (borrowers s) u = Some r \<longrightarrow> distinct (borrowed_books r))
     \<and> (\<forall>k b. map_of (books s) k = Some b \<longrightarrow>
           (if available b then \<forall>u. \<not> held_by s k u else \<exists>!u. held_by s k u))"

text \<open>
  The observable state of a borrower: its three fields and the books it holds, which the
  data model takes as a set (the order of the list is for display).
\<close>

definition same_borrower :: "borrower \<Rightarrow> borrower \<Rightarrow> bool" where
  "same_borrower r r' \<longleftrightarrow>
     borrower_id r' = borrower_id r \<and> name r' = name r \<and> email r' = email r
     \<and> mset (borrowed_books r') = mset (borrowed_books r)"

text \<open>A checkout followed at once by the return of the same book by the same borrower.\<close>

definition round_trip :: "library \<Rightarrow> string \<Rightarrow> string \<Rightarrow> library" where
  "round_trip s bid uid = snd (return_book (snd (checkout_book s bid uid)) bid uid)"

definition empty_library :: library where
  "empty_library = \<lparr>books = [], borrowers = []\<rparr>"

section \<open>The two transitions, read through the dicts\<close>

lemma keys_map_entry: "map fst (AList.map_entry k f xs) = map fst xs"
  by (induction xs) auto

lemma map_entry_cong_lookup:
  "map_of xs k = Some v \<Longrightarrow> f v = g v \<Longrightarrow> AList.map_entry k f xs = AList.map_entry k g xs"
  by (induction xs) (auto split: if_splits)

lemma map_entry_twice:
  "AList.map_entry k g (AList.map_entry k f xs) = AList.map_entry k (g \<circ> f) xs"
  by (induction xs) auto

lemma map_entry_ident:
  "map_of xs k = Some v \<Longrightarrow> f v = v \<Longrightarrow> AList.map_entry k f xs = xs"
  by (induction xs) (auto split: if_splits)

lemma map_entry_related:
  "(\<And>v. P v (f v)) \<Longrightarrow> (\<And>v. P v v) \<Longrightarrow>
     list_all2 (\<lambda>p q. fst q = fst p \<and> P (snd p) (snd q)) xs (AList.map_entry k f xs)"
  by (induction xs) (auto intro!: list_all2_refl)

lemma list_all_map_entry:
  "list_all (\<lambda>(u, r). Q r) xs \<Longrightarrow> (\<And>r. Q r \<Longrightarrow> Q (f r)) \<Longrightarrow>
     list_all (\<lambda>(u, r). Q r) (AList.map_entry k f xs)"
  by (induction xs) auto

lemma list_all_lookup:
  "distinct (map fst xs) \<Longrightarrow>
     list_all (\<lambda>(k, v). P k v) xs \<longleftrightarrow> (\<forall>k v. map_of xs k = Some v \<longrightarrow> P k v)"
  by (auto simp: list_all_iff)

lemma others_unchanged_map_entry: "others_unchanged k xs (AList.map_entry k f xs)"
  unfolding others_unchanged_def
  by (induction xs) (auto intro: list_all2_refl)

lemma others_unchanged_refl: "others_unchanged k xs xs"
  unfolding others_unchanged_def by (simp add: list_all2_refl)

lemma others_unchanged_lookup:
  "others_unchanged k xs ys \<Longrightarrow> j \<noteq> k \<Longrightarrow> map_of ys j = map_of xs j"
  unfolding others_unchanged_def
  by (induction xs ys rule: list_all2_induct) (auto split: if_splits)

lemma checkout_book_success:
  assumes "map_of (books s) bid = Some b" and "map_of (borrowers s) uid = Some r"
    and "available b" and "length (borrowed_books r) < MAX_BOOKS"
  shows "checkout_book s bid uid =
    (True, \<lparr>books = AList.map_entry bid (\<lambda>x. x\<lparr>available := False\<rparr>) (books s),
            borrowers = AList.map_entry uid
              (\<lambda>x. x\<lparr>borrowed_books := borrowed_books x @ [bid]\<rparr>) (borrowers s)\<rparr>)"
proof -
  have "snd (borrow_book r bid) = r\<lparr>borrowed_books := borrowed_books r @ [bid]\<rparr>"
    using assms(4) by (simp add: borrow_book_def can_borrow_def)
  then have same: "AList.map_entry uid (\<lambda>x. snd (borrow_book x bid)) (borrowers s) =
      AList.map_entry uid (\<lambda>x. x\<lparr>borrowed_books := borrowed_books x @ [bid]\<rparr>) (borrowers s)"
    using assms(2) by (rule_tac map_entry_cong_lookup) auto
  show ?thesis
    using assms same by (simp add: checkout_book_def can_borrow_def save_def)
qed

lemma checkout_book_failure:
  assumes "map_of (books s) bid = None \<or> map_of (borrowers s) uid = None
     \<or> (\<exists>b. map_of (books s) bid = Some b \<and> \<not> available b)
     \<or> (\<exists>r. map_of (borrowers s) uid = Some r \<and> MAX_BOOKS \<le> length (borrowed_books r))"
  shows "checkout_book s bid uid = (False, s)"
  using assms by (auto simp: checkout_book_def can_borrow_def split: option.splits)

lemma return_book_success:
  assumes "map_of (books s) bid = Some b" and "map_of (borrowers s) uid = Some r"
    and "bid \<in> set (borrowed_books r)"
  shows "return_book s bid uid =
    (True, \<lparr>books = AList.map_entry bid (\<lambda>x. x\<lparr>available := True\<rparr>) (books s),
            borrowers = AList.map_entry uid
              (\<lambda>x. x\<lparr>borrowed_books := remove1 bid (borrowed_books x)\<rparr>) (borrowers s)\<rparr>)"
proof -
  have "snd (Borrower_return_book r bid) = r\<lparr>borrowed_books := remove1 bid (borrowed_books r)\<rparr>"
    using assms(3) by (simp add: Borrower_return_book_def)
  then have same: "AList.map_entry uid (\<lambda>x. snd (Borrower_return_book x bid)) (borrowers s) =
      AList.map_entry uid (\<lambda>x. x\<lparr>borrowed_books := remove1 bid (borrowed_books x)\<rparr>) (borrowers s)"
    using assms(2) by (rule_tac map_entry_cong_lookup) auto
  show ?thesis
    using assms same by (simp add: return_book_def save_def)
qed

lemma return_book_failure:
  assumes "map_of (books s) bid = None \<or> map_of (borrowers s) uid = None
     \<or> (\<exists>r. map_of (borrowers s) uid = Some r \<and> bid \<notin> set (borrowed_books r))"
  shows "return_book s bid uid = (False, s)"
  using assms by (auto simp: return_book_def split: option.splits)

lemma checkout_book_cases:
  "fst (checkout_book s bid uid) \<Longrightarrow>
     \<exists>b r. map_of (books s) bid = Some b \<and> map_of (borrowers s) uid = Some r
       \<and> available b \<and> length (borrowed_books r) < MAX_BOOKS"
  by (auto simp: checkout_book_def can_borrow_def split: option.splits if_splits)

lemma return_book_iff:
  "fst (return_book s bid uid) \<longleftrightarrow>
     (\<exists>b. map_of (books s) bid = Some b)
     \<and> (\<exists>r. map_of (borrowers s) uid = Some r \<and> bid \<in> set (borrowed_books r))"
  by (auto simp: return_book_def save_def split: option.splits)

lemma checkout_book_not_fst: "\<not> fst (checkout_book s bid uid) \<Longrightarrow> snd (checkout_book s bid uid) = s"
  by (auto simp: checkout_book_def save_def Let_def split: option.splits if_splits)

lemma return_book_not_fst: "\<not> fst (return_book s bid uid) \<Longrightarrow> snd (return_book s bid uid) = s"
  by (auto simp: return_book_def save_def Let_def split: option.splits if_splits)

lemma keys_checkout:
  "map fst (books (snd (checkout_book s bid uid))) = map fst (books s)
   \<and> map fst (borrowers (snd (checkout_book s bid uid))) = map fst (borrowers s)"
  by (auto simp: checkout_book_def save_def Let_def keys_map_entry split: option.splits)

lemma keys_return:
  "map fst (books (snd (return_book s bid uid))) = map fst (books s)
   \<and> map fst (borrowers (snd (return_book s bid uid))) = map fst (borrowers s)"
  by (auto simp: return_book_def save_def Let_def keys_map_entry split: option.splits)

section \<open>Checkout\<close>

text \<open>
  Claim C2. When the book exists, the borrower exists, the book is available and the
  borrower holds fewer than \<open>MAX_BOOKS\<close> books, \<open>checkout_book\<close> returns \<open>True\<close> and the one
  registry it leaves has the book unavailable and \<open>book_id\<close> appended to the borrower's
  \<open>borrowed_books\<close>: both updates are in the same resulting state.
\<close>

theorem checkout_book_succeeds:
  assumes "map_of (books s) bid = Some b" and "map_of (borrowers s) uid = Some r"
    and "available b" and "length (borrowed_books r) < MAX_BOOKS"
  shows "fst (checkout_book s bid uid)
       \<and> map_of (books (snd (checkout_book s bid uid))) bid = Some (b\<lparr>available := False\<rparr>)
       \<and> map_of (borrowers (snd (checkout_book s bid uid))) uid
           = Some (r\<lparr>borrowed_books := borrowed_books r @ [bid]\<rparr>)"
  using assms by (simp add: checkout_book_success map_of_map_entry)

theorem checkout_book_succeeds_witness:
  "fst (checkout_book lib0 ''BOOK_0001'' ''USER_0001'')
   \<and> map_of (books (snd (checkout_book lib0 ''BOOK_0001'' ''USER_0001''))) ''BOOK_0001''
       = Some (book1\<lparr>available := False\<rparr>)
   \<and> map_of (borrowers (snd (checkout_book lib0 ''BOOK_0001'' ''USER_0001''))) ''USER_0001''
       = Some (joe\<lparr>borrowed_books := [''BOOK_0001'']\<rparr>)"
  using checkout_book_succeeds [of lib0 "''BOOK_0001''" book1 "''USER_0001''" joe]
  by (simp add: lib0_def book1_def joe_def MAX_BOOKS_def)

text \<open>
  Claim C3. When the book is unknown, the borrower is unknown, the book is unavailable or
  the borrower already holds \<open>MAX_BOOKS\<close> books, \<open>checkout_book\<close> returns the flag \<open>False\<close>
  (no exception) and the registry is the one it was given.
\<close>

theorem checkout_book_fails_unchanged:
  assumes "map_of (books s) bid = None \<or> map_of (borrowers s) uid = None
     \<or> (\<exists>b. map_of (books s) bid = Some b \<and> \<not> available b)
     \<or> (\<exists>r. map_of (borrowers s) uid = Some r \<and> MAX_BOOKS \<le> length (borrowed_books r))"
  shows "checkout_book s bid uid = (False, s)"
  using assms by (rule checkout_book_failure)

theorem checkout_book_fails_unchanged_witness:
  "checkout_book lib3 ''BOOK_0009'' ''USER_0002'' = (False, lib3)
   \<and> checkout_book lib3 ''BOOK_0004'' ''USER_0009'' = (False, lib3)
   \<and> checkout_book lib3 ''BOOK_0001'' ''USER_0002'' = (False, lib3)
   \<and> checkout_book lib3 ''BOOK_0004'' ''USER_0001'' = (False, lib3)"
  using checkout_book_fails_unchanged [of lib3 "''BOOK_0009''" "''USER_0002''"]
    checkout_book_fails_unchanged [of lib3 "''BOOK_0004''" "''USER_0009''"]
    checkout_book_fails_unchanged [of lib3 "''BOOK_0001''" "''USER_0002''"]
    checkout_book_fails_unchanged [of lib3 "''BOOK_0004''" "''USER_0001''"]
  by (simp add: lib3_def held_def joe_def ann_def MAX_BOOKS_def)

section \<open>Return\<close>

text \<open>
  Claim C5. \<open>return_book\<close> returns \<open>True\<close> exactly when the book exists, the borrower exists
  and \<open>book_id\<close> is in the borrower's \<open>borrowed_books\<close>. On success the resulting registry
  has \<open>book_id\<close> removed from that list (\<open>list.remove\<close>, the first occurrence) and the book
  available, both in the same state; on failure the registry is unchanged.
\<close>

theorem return_book_contract:
  "(fst (return_book s bid uid) \<longleftrightarrow>
      (\<exists>b. map_of (books s) bid = Some b)
      \<and> (\<exists>r. map_of (borrowers s) uid = Some r \<and> bid \<in> set (borrowed_books r)))
   \<and> (fst (return_book s bid uid) \<longrightarrow>
        (\<exists>b r. map_of (books s) bid = Some b \<and> map_of (borrowers s) uid = Some r
           \<and> map_of (books (snd (return_book s bid uid))) bid = Some (b\<lparr>available := True\<rparr>)
           \<and> map_of (borrowers (snd (return_book s bid uid))) uid
               = Some (r\<lparr>borrowed_books := remove1 bid (borrowed_books r)\<rparr>)))
   \<and> (\<not> fst (return_book s bid uid) \<longrightarrow> snd (return_book s bid uid) = s)"
proof (cases "fst (return_book s bid uid)")
  case True
  then obtain b r where br: "map_of (books s) bid = Some b" "map_of (borrowers s) uid = Some r"
      "bid \<in> set (borrowed_books r)"
    using return_book_iff by blast
  then show ?thesis
    by (simp add: return_book_success map_of_map_entry)
next
  case False
  then have "return_book s bid uid = (False, s)"
    by (auto simp: return_book_def save_def split: option.splits if_splits)
  with False show ?thesis
    using return_book_iff [of s bid uid] by simp
qed

theorem return_book_contract_witness:
  "fst (return_book lib3 ''BOOK_0002'' ''USER_0001'')
   \<and> map_of (books (snd (return_book lib3 ''BOOK_0002'' ''USER_0001''))) ''BOOK_0002''
        = Some ((held ''BOOK_0002'')\<lparr>available := True\<rparr>)
   \<and> map_of (borrowers (snd (return_book lib3 ''BOOK_0002'' ''USER_0001''))) ''USER_0001''
        = Some (joe\<lparr>borrowed_books := [''BOOK_0001'', ''BOOK_0003'']\<rparr>)
   \<and> \<not> fst (return_book lib3 ''BOOK_0002'' ''USER_0002'')
   \<and> snd (return_book lib3 ''BOOK_0002'' ''USER_0002'') = lib3"
  using return_book_contract [of lib3 "''BOOK_0002''" "''USER_0001''"]
    return_book_contract [of lib3 "''BOOK_0002''" "''USER_0002''"]
  by (simp add: lib3_def held_def joe_def ann_def)

section \<open>Frame\<close>

text \<open>
  Claim C10. After a successful \<open>checkout_book\<close> or \<open>return_book\<close>, every book other than
  the one under \<open>book_id\<close> and every borrower other than the one under \<open>borrower_id\<close> is
  unchanged, and the keys of both dicts are the same, in the same order.
\<close>

theorem transitions_frame:
  "(fst (checkout_book s bid uid) \<longrightarrow>
      others_unchanged bid (books s) (books (snd (checkout_book s bid uid)))
      \<and> others_unchanged uid (borrowers s) (borrowers (snd (checkout_book s bid uid))))
   \<and> (fst (return_book s bid uid) \<longrightarrow>
      others_unchanged bid (books s) (books (snd (return_book s bid uid)))
      \<and> others_unchanged uid (borrowers s) (borrowers (snd (return_book s bid uid))))"
proof (intro conjI impI)
  assume "fst (checkout_book s bid uid)"
  then obtain b r where *: "map_of (books s) bid = Some b" "map_of (borrowers s) uid = Some r"
      "available b" "length (borrowed_books r) < MAX_BOOKS"
    using checkout_book_cases by blast
  show "others_unchanged bid (books s) (books (snd (checkout_book s bid uid)))"
    by (simp add: checkout_book_success [OF *] others_unchanged_map_entry)
  show "others_unchanged uid (borrowers s) (borrowers (snd (checkout_book s bid uid)))"
    by (simp add: checkout_book_success [OF *] others_unchanged_map_entry)
next
  assume "fst (return_book s bid uid)"
  then obtain b r where *: "map_of (books s) bid = Some b" "map_of (borrowers s) uid = Some r"
      "bid \<in> set (borrowed_books r)"
    using return_book_iff by blast
  show "others_unchanged bid (books s) (books (snd (return_book s bid uid)))"
    by (simp add: return_book_success [OF *] others_unchanged_map_entry)
  show "others_unchanged uid (borrowers s) (borrowers (snd (return_book s bid uid)))"
    by (simp add: return_book_success [OF *] others_unchanged_map_entry)
qed

theorem transitions_frame_witness:
  "fst (checkout_book lib0 ''BOOK_0001'' ''USER_0001'')
   \<and> others_unchanged ''BOOK_0001'' (books lib0)
        (books (snd (checkout_book lib0 ''BOOK_0001'' ''USER_0001'')))
   \<and> others_unchanged ''USER_0001'' (borrowers lib0)
        (borrowers (snd (checkout_book lib0 ''BOOK_0001'' ''USER_0001'')))
   \<and> fst (return_book lib3 ''BOOK_0002'' ''USER_0001'')
   \<and> others_unchanged ''BOOK_0002'' (books lib3)
        (books (snd (return_book lib3 ''BOOK_0002'' ''USER_0001'')))
   \<and> others_unchanged ''USER_0001'' (borrowers lib3)
        (borrowers (snd (return_book lib3 ''BOOK_0002'' ''USER_0001'')))"
proof -
  have c: "fst (checkout_book lib0 ''BOOK_0001'' ''USER_0001'')"
    by (simp add: checkout_book_def can_borrow_def save_def lib0_def book1_def joe_def
        MAX_BOOKS_def)
  have r: "fst (return_book lib3 ''BOOK_0002'' ''USER_0001'')"
    by (simp add: return_book_def save_def lib3_def joe_def)
  show ?thesis
    using c r transitions_frame [of lib0 "''BOOK_0001''" "''USER_0001''"]
      transitions_frame [of lib3 "''BOOK_0002''" "''USER_0001''"]
    by simp
qed

section \<open>The borrowing limit\<close>

lemma within_limit_checkout: "within_limit s \<Longrightarrow> within_limit (snd (checkout_book s bid uid))"
  unfolding within_limit_def checkout_book_def
  by (auto simp: save_def Let_def borrow_book_def can_borrow_def split: option.splits
      intro!: list_all_map_entry)

lemma length_remove1_le: "length (remove1 x xs) \<le> length xs"
  by (induction xs) auto

lemma within_limit_return: "within_limit s \<Longrightarrow> within_limit (snd (return_book s bid uid))"
  unfolding within_limit_def return_book_def
  by (auto simp: save_def Let_def Borrower_return_book_def split: option.splits
      intro!: list_all_map_entry intro: order_trans [OF length_remove1_le])

lemma within_limit_step: "within_limit s \<Longrightarrow> within_limit (step s c)"
  by (cases c) (simp_all add: within_limit_checkout within_limit_return)

text \<open>
  Claim C4. From a registry in which every borrower holds at most \<open>MAX_BOOKS = 3\<close> books,
  after any sequence of \<open>checkout_book\<close> and \<open>return_book\<close> calls every borrower's
  \<open>borrowed_books\<close> has length at most 3.
\<close>

theorem borrow_limit_invariant:
  assumes "within_limit s"
  shows "within_limit (run s cs)
       \<and> (\<forall>u r. map_of (borrowers (run s cs)) u = Some r \<longrightarrow> length (borrowed_books r) \<le> 3)"
proof -
  have w: "within_limit (run s cs)"
    using assms unfolding run_def
    by (induction cs arbitrary: s) (simp_all add: within_limit_step)
  have "length (borrowed_books r) \<le> 3" if "map_of (borrowers (run s cs)) u = Some r" for u r
  proof -
    from that have "(u, r) \<in> set (borrowers (run s cs))" by (rule map_of_SomeD)
    with w show ?thesis
      by (auto simp: within_limit_def list_all_iff MAX_BOOKS_def)
  qed
  with w show ?thesis by blast
qed

theorem borrow_limit_invariant_witness:
  "within_limit lib3
   \<and> within_limit (run lib3 [Checkout ''BOOK_0004'' ''USER_0001'',
          Return ''BOOK_0001'' ''USER_0001'', Checkout ''BOOK_0004'' ''USER_0001''])
   \<and> map_of (borrowers (run lib3 [Checkout ''BOOK_0004'' ''USER_0001'',
          Return ''BOOK_0001'' ''USER_0001'', Checkout ''BOOK_0004'' ''USER_0001'']))
        ''USER_0001''
       = Some (joe\<lparr>borrowed_books := [''BOOK_0002'', ''BOOK_0003'', ''BOOK_0004'']\<rparr>)"
proof -
  have w: "within_limit lib3"
    by (simp add: within_limit_def lib3_def joe_def ann_def MAX_BOOKS_def)
  have r: "map_of (borrowers (run lib3 [Checkout ''BOOK_0004'' ''USER_0001'',
          Return ''BOOK_0001'' ''USER_0001'', Checkout ''BOOK_0004'' ''USER_0001'']))
        ''USER_0001''
       = Some (joe\<lparr>borrowed_books := [''BOOK_0002'', ''BOOK_0003'', ''BOOK_0004'']\<rparr>)"
    by (simp add: run_def checkout_book_def return_book_def borrow_book_def
        Borrower_return_book_def can_borrow_def save_def MAX_BOOKS_def lib3_def held_def
        joe_def ann_def)
  show ?thesis
    using w r borrow_limit_invariant [OF w, of "[Checkout ''BOOK_0004'' ''USER_0001'',
          Return ''BOOK_0001'' ''USER_0001'', Checkout ''BOOK_0004'' ''USER_0001'']"]
    by simp
qed

section \<open>Availability and holders\<close>

lemma set_holders:
  "distinct (map fst (borrowers s)) \<Longrightarrow> set (holders s k) = {u. held_by s k u}"
  by (auto simp: holders_def held_by_def image_iff)

lemma distinct_holders: "distinct (map fst (borrowers s)) \<Longrightarrow> distinct (holders s k)"
  by (simp add: holders_def distinct_map_filter)

lemma length_one_iff_unique: "distinct xs \<Longrightarrow> length xs = 1 \<longleftrightarrow> (\<exists>!x. x \<in> set xs)"
proof (cases xs)
  case Nil
  then show ?thesis by auto
next
  case (Cons a as)
  assume d: "distinct xs"
  show ?thesis
  proof (cases as)
    case Nil
    with Cons show ?thesis by auto
  next
    case (Cons b bs)
    with \<open>xs = a # as\<close> d have "a \<noteq> b" "a \<in> set xs" "b \<in> set xs" by auto
    then have "\<not> (\<exists>!x. x \<in> set xs)" by blast
    with Cons \<open>xs = a # as\<close> show ?thesis by simp
  qed
qed

lemma holders_Nil_iff:
  assumes "distinct (map fst (borrowers s))"
  shows "holders s k = [] \<longleftrightarrow> (\<forall>u. \<not> held_by s k u)"
proof -
  have "holders s k = [] \<longleftrightarrow> set (holders s k) = {}" by simp
  also have "\<dots> \<longleftrightarrow> (\<forall>u. \<not> held_by s k u)"
    unfolding set_holders [OF assms] by blast
  finally show ?thesis .
qed

lemma holders_one_iff:
  assumes "distinct (map fst (borrowers s))"
  shows "length (holders s k) = 1 \<longleftrightarrow> (\<exists>!u. held_by s k u)"
proof -
  have "length (holders s k) = 1 \<longleftrightarrow> (\<exists>!u. u \<in> set (holders s k))"
    by (rule length_one_iff_unique) (rule distinct_holders [OF assms])
  also have "\<dots> \<longleftrightarrow> (\<exists>!u. held_by s k u)"
    unfolding set_holders [OF assms] by simp
  finally show ?thesis .
qed

lemma ledger_entry_iff:
  assumes "distinct (map fst (borrowers s))"
  shows "(if available b then holders s k = [] else length (holders s k) = 1)
     \<longleftrightarrow> (if available b then \<forall>u. \<not> held_by s k u else \<exists>!u. held_by s k u)"
  using holders_Nil_iff [OF assms, of k] holders_one_iff [OF assms, of k] by simp

lemma consistent_iff:
  "consistent s \<longleftrightarrow>
     distinct (map fst (books s)) \<and> distinct (map fst (borrowers s)) \<and> ledger_ok s"
proof (cases "distinct (map fst (books s)) \<and> distinct (map fst (borrowers s))")
  case True
  then have db: "distinct (map fst (books s))" and dr: "distinct (map fst (borrowers s))"
    by simp_all
  show ?thesis
    unfolding consistent_def ledger_ok_def ledger_entry_iff [OF dr]
      list_all_lookup [OF db] list_all_lookup [OF dr]
    using db dr by simp
next
  case False
  then show ?thesis by (auto simp: consistent_def)
qed

lemma ledger_ok_checkout:
  assumes ok: "ledger_ok s"
  shows "ledger_ok (snd (checkout_book s bid uid))"
proof (cases "fst (checkout_book s bid uid)")
  case False
  then show ?thesis using ok by (simp add: checkout_book_not_fst)
next
  case True
  then obtain b r where *: "map_of (books s) bid = Some b" "map_of (borrowers s) uid = Some r"
      "available b" "length (borrowed_books r) < MAX_BOOKS"
    using checkout_book_cases by blast
  define s' where "s' = snd (checkout_book s bid uid)"
  have B: "map_of (books s') = (map_of (books s))(bid \<mapsto> b\<lparr>available := False\<rparr>)"
    and R: "map_of (borrowers s') =
        (map_of (borrowers s))(uid \<mapsto> r\<lparr>borrowed_books := borrowed_books r @ [bid]\<rparr>)"
    unfolding s'_def using * by (simp_all add: checkout_book_success [OF *] map_of_map_entry)
  from ok * have free: "\<not> held_by s bid u" for u
    unfolding ledger_ok_def by (metis (full_types))
  then have fresh: "bid \<notin> set (borrowed_books r)"
    using *(2) unfolding held_by_def by blast
  have H: "held_by s' k u \<longleftrightarrow> held_by s k u \<or> (k = bid \<and> u = uid)" for k u
    unfolding held_by_def R using *(2) by auto
  have 1: "book_id b' = k" if "map_of (books s') k = Some b'" for k b'
    using that ok *(1) unfolding B ledger_ok_def by (auto split: if_splits)
  have 2: "distinct (borrowed_books r')" if "map_of (borrowers s') u = Some r'" for u r'
    using that ok *(2) fresh unfolding R ledger_ok_def by (auto split: if_splits)
  have 3: "if available b' then \<forall>u. \<not> held_by s' k u else \<exists>!u. held_by s' k u"
    if "map_of (books s') k = Some b'" for k b'
  proof (cases "k = bid")
    case True
    with that have "\<not> available b'" unfolding B by auto
    moreover have "\<exists>!u. held_by s' bid u"
      unfolding H using free by auto
    ultimately show ?thesis using True by simp
  next
    case False
    with that have "map_of (books s) k = Some b'" unfolding B by simp
    with ok have "if available b' then \<forall>u. \<not> held_by s k u else \<exists>!u. held_by s k u"
      unfolding ledger_ok_def by blast
    then show ?thesis unfolding H using False by simp
  qed
  show ?thesis
    unfolding s'_def [symmetric] ledger_ok_def using 1 2 3 by blast
qed

lemma ledger_ok_return:
  assumes ok: "ledger_ok s"
  shows "ledger_ok (snd (return_book s bid uid))"
proof (cases "fst (return_book s bid uid)")
  case False
  then show ?thesis using ok by (simp add: return_book_not_fst)
next
  case True
  then obtain b r where *: "map_of (books s) bid = Some b" "map_of (borrowers s) uid = Some r"
      "bid \<in> set (borrowed_books r)"
    using return_book_iff by blast
  define s' where "s' = snd (return_book s bid uid)"
  have B: "map_of (books s') = (map_of (books s))(bid \<mapsto> b\<lparr>available := True\<rparr>)"
    and R: "map_of (borrowers s') =
        (map_of (borrowers s))(uid \<mapsto> r\<lparr>borrowed_books := remove1 bid (borrowed_books r)\<rparr>)"
    unfolding s'_def using * by (simp_all add: return_book_success [OF *] map_of_map_entry)
  have d: "distinct (borrowed_books r)"
    using ok *(2) unfolding ledger_ok_def by blast
  have mine: "held_by s bid uid"
    using *(2,3) unfolding held_by_def by blast
  from ok *(1) have "if available b then \<forall>u. \<not> held_by s bid u else \<exists>!u. held_by s bid u"
    unfolding ledger_ok_def by blast
  with mine have only: "held_by s bid u \<Longrightarrow> u = uid" for u
    by (auto split: if_splits)
  have H: "held_by s' k u \<longleftrightarrow> held_by s k u \<and> \<not> (k = bid \<and> u = uid)" for k u
    unfolding held_by_def R using *(2) d by auto
  have 1: "book_id b' = k" if "map_of (books s') k = Some b'" for k b'
    using that ok *(1) unfolding B ledger_ok_def by (auto split: if_splits)
  have 2: "distinct (borrowed_books r')" if "map_of (borrowers s') u = Some r'" for u r'
    using that ok *(2) unfolding R ledger_ok_def by (auto split: if_splits)
  have 3: "if available b' then \<forall>u. \<not> held_by s' k u else \<exists>!u. held_by s' k u"
    if "map_of (books s') k = Some b'" for k b'
  proof (cases "k = bid")
    case True
    with that have "available b'" unfolding B by auto
    moreover have "\<not> held_by s' bid u" for u
      unfolding H using only by blast
    ultimately show ?thesis using True by simp
  next
    case False
    with that have "map_of (books s) k = Some b'" unfolding B by simp
    with ok have "if available b' then \<forall>u. \<not> held_by s k u else \<exists>!u. held_by s k u"
      unfolding ledger_ok_def by blast
    then show ?thesis unfolding H using False by simp
  qed
  show ?thesis
    unfolding s'_def [symmetric] ledger_ok_def using 1 2 3 by blast
qed

lemma consistent_step: "consistent s \<Longrightarrow> consistent (step s c)"
  by (cases c) (simp_all add: consistent_iff keys_checkout keys_return ledger_ok_checkout
      ledger_ok_return)

lemma consistent_run: "consistent s \<Longrightarrow> consistent (run s cs)"
  unfolding run_def by (induction cs arbitrary: s) (simp_all add: consistent_step)

lemma consistent_empty_library: "consistent empty_library"
  by (simp add: consistent_def empty_library_def)

text \<open>
  Claim C1. In every registry reached from a consistent one (the empty registry is one) by
  a sequence of \<open>checkout_book\<close> and \<open>return_book\<close> calls, a book is unavailable if and only
  if some borrower's \<open>borrowed_books\<close> contains its \<open>book_id\<close>, and then exactly one borrower
  does.
\<close>

theorem availability_invariant:
  assumes "consistent s"
  shows "\<forall>(k, b) \<in> set (books (run s cs)).
           (available b = False) \<longleftrightarrow>
           (\<exists>!u. \<exists>r. map_of (borrowers (run s cs)) u = Some r
                      \<and> book_id b \<in> set (borrowed_books r))"
proof -
  have c: "consistent (run s cs)" using assms by (rule consistent_run)
  then have ok: "ledger_ok (run s cs)" and db: "distinct (map fst (books (run s cs)))"
    by (simp_all add: consistent_iff)
  have "(available b = False) \<longleftrightarrow>
           (\<exists>!u. \<exists>r. map_of (borrowers (run s cs)) u = Some r
                      \<and> book_id b \<in> set (borrowed_books r))"
    if "(k, b) \<in> set (books (run s cs))" for k b
  proof -
    from that db have l: "map_of (books (run s cs)) k = Some b" by simp
    with ok have id: "book_id b = k"
      and h: "if available b then \<forall>u. \<not> held_by (run s cs) k u
              else \<exists>!u. held_by (run s cs) k u"
      unfolding ledger_ok_def by blast+
    show ?thesis
      using h unfolding id held_by_def by (auto split: if_splits)
  qed
  then show ?thesis by blast
qed

theorem availability_invariant_witness:
  "consistent lib3
   \<and> (\<exists>!u. \<exists>r. map_of (borrowers (run lib3 [Return ''BOOK_0002'' ''USER_0001'',
              Checkout ''BOOK_0002'' ''USER_0002'', Return ''BOOK_0001'' ''USER_0001''])) u
                = Some r
            \<and> ''BOOK_0002'' \<in> set (borrowed_books r))
   \<and> \<not> (\<exists>!u. \<exists>r. map_of (borrowers (run lib3 [Return ''BOOK_0002'' ''USER_0001'',
              Checkout ''BOOK_0002'' ''USER_0002'', Return ''BOOK_0001'' ''USER_0001''])) u
                = Some r
            \<and> ''BOOK_0001'' \<in> set (borrowed_books r))"
proof -
  let ?cs = "[Return ''BOOK_0002'' ''USER_0001'', Checkout ''BOOK_0002'' ''USER_0002'',
              Return ''BOOK_0001'' ''USER_0001'']"
  have c: "consistent lib3"
    by (simp add: consistent_def holders_def lib3_def held_def joe_def ann_def)
  have b: "books (run lib3 ?cs) =
      [(''BOOK_0001'', (held ''BOOK_0001'')\<lparr>available := True\<rparr>),
       (''BOOK_0002'', held ''BOOK_0002''), (''BOOK_0003'', held ''BOOK_0003''),
       (''BOOK_0004'', (held ''BOOK_0004'')\<lparr>available := True\<rparr>)]"
    by (simp add: run_def checkout_book_def return_book_def borrow_book_def
        Borrower_return_book_def can_borrow_def save_def MAX_BOOKS_def lib3_def held_def
        joe_def ann_def)
  have m1: "(''BOOK_0001'', (held ''BOOK_0001'')\<lparr>available := True\<rparr>) \<in> set (books (run lib3 ?cs))"
    and m2: "(''BOOK_0002'', held ''BOOK_0002'') \<in> set (books (run lib3 ?cs))"
    unfolding b by simp_all
  note inv = availability_invariant [OF c, of ?cs]
  from bspec [OF inv m1] bspec [OF inv m2] c show ?thesis
    by (simp add: held_def)
qed

section \<open>Checkout followed by return\<close>

lemma round_trip_state:
  assumes "map_of (books s) bid = Some b" and "map_of (borrowers s) uid = Some r"
    and "available b" and "length (borrowed_books r) < MAX_BOOKS"
  shows "return_book (snd (checkout_book s bid uid)) bid uid =
    (True, \<lparr>books = books s,
            borrowers = AList.map_entry uid
              (\<lambda>x. x\<lparr>borrowed_books := remove1 bid (borrowed_books x @ [bid])\<rparr>)
              (borrowers s)\<rparr>)"
proof -
  let ?s1 = "snd (checkout_book s bid uid)"
  have s1: "?s1 = \<lparr>books = AList.map_entry bid (\<lambda>x. x\<lparr>available := False\<rparr>) (books s),
            borrowers = AList.map_entry uid
              (\<lambda>x. x\<lparr>borrowed_books := borrowed_books x @ [bid]\<rparr>) (borrowers s)\<rparr>"
    by (simp add: checkout_book_success [OF assms])
  have l1: "map_of (books ?s1) bid = Some (b\<lparr>available := False\<rparr>)"
    and l2: "map_of (borrowers ?s1) uid = Some (r\<lparr>borrowed_books := borrowed_books r @ [bid]\<rparr>)"
    using assms(1,2) by (simp_all add: s1 map_of_map_entry)
  have l3: "bid \<in> set (borrowed_books (r\<lparr>borrowed_books := borrowed_books r @ [bid]\<rparr>))"
    by simp
  have bk: "AList.map_entry bid (\<lambda>x. x\<lparr>available := True\<rparr>) (books ?s1) = books s"
    unfolding s1 using assms(1,3)
    by (simp add: map_entry_twice map_entry_ident)
  have br: "AList.map_entry uid (\<lambda>x. x\<lparr>borrowed_books := remove1 bid (borrowed_books x)\<rparr>)
        (borrowers ?s1)
      = AList.map_entry uid
          (\<lambda>x. x\<lparr>borrowed_books := remove1 bid (borrowed_books x @ [bid])\<rparr>) (borrowers s)"
    unfolding s1 by (simp add: map_entry_twice comp_def)
  show ?thesis
    unfolding return_book_success [OF l1 l2 l3] bk br ..
qed

lemma round_trip_exact:
  assumes "map_of (books s) bid = Some b" and "map_of (borrowers s) uid = Some r"
    and "available b" and "length (borrowed_books r) < MAX_BOOKS"
    and "bid \<notin> set (borrowed_books r)"
  shows "round_trip s bid uid = s"
proof -
  have "remove1 bid (borrowed_books r @ [bid]) = borrowed_books r"
    using assms(5) by (simp add: remove1_append)
  then have "AList.map_entry uid
      (\<lambda>x. x\<lparr>borrowed_books := remove1 bid (borrowed_books x @ [bid])\<rparr>) (borrowers s)
      = borrowers s"
    using assms(2) by (intro map_entry_ident [where v = r]) simp_all
  then show ?thesis
    unfolding round_trip_def round_trip_state [OF assms(1-4)] by simp
qed

lemma round_trip_consistent:
  assumes "consistent s" and "fst (checkout_book s bid uid)"
  shows "round_trip s bid uid = s"
proof -
  obtain b r where *: "map_of (books s) bid = Some b" "map_of (borrowers s) uid = Some r"
      "available b" "length (borrowed_books r) < MAX_BOOKS"
    using assms(2) checkout_book_cases by blast
  from assms(1) have "ledger_ok s" by (simp add: consistent_iff)
  with *(1,3) have "\<not> held_by s bid uid"
    unfolding ledger_ok_def by (metis (full_types))
  with *(2) have "bid \<notin> set (borrowed_books r)"
    unfolding held_by_def by blast
  with * show ?thesis by (rule round_trip_exact)
qed

text \<open>
  Claim C6. Whenever \<open>checkout_book\<close> succeeds, the return of the same book by the same
  borrower right after it succeeds too, and it restores the registry: the books dict is
  the one before the checkout, every borrower has the fields and the held books it had,
  and every borrower other than the named one is untouched. The held books are restored
  as a collection, the reading the data model gives of \<open>held_books\<close>; when the borrower
  did not already list the book, as in every consistent registry, the whole registry is
  the same, lists and their order included.
\<close>

theorem checkout_return_round_trip:
  assumes "fst (checkout_book s bid uid)"
  shows "fst (return_book (snd (checkout_book s bid uid)) bid uid)
     \<and> books (round_trip s bid uid) = books s
     \<and> list_all2 (\<lambda>p q. fst q = fst p \<and> same_borrower (snd p) (snd q))
          (borrowers s) (borrowers (round_trip s bid uid))
     \<and> others_unchanged uid (borrowers s) (borrowers (round_trip s bid uid))
     \<and> ((\<forall>r. map_of (borrowers s) uid = Some r \<longrightarrow> bid \<notin> set (borrowed_books r))
          \<longrightarrow> round_trip s bid uid = s)"
proof -
  obtain b r where *: "map_of (books s) bid = Some b" "map_of (borrowers s) uid = Some r"
      "available b" "length (borrowed_books r) < MAX_BOOKS"
    using assms checkout_book_cases by blast
  note rt = round_trip_state [OF *]
  have 1: "fst (return_book (snd (checkout_book s bid uid)) bid uid)"
    by (simp add: rt)
  have 2: "books (round_trip s bid uid) = books s"
    by (simp add: round_trip_def rt)
  have 3: "list_all2 (\<lambda>p q. fst q = fst p \<and> same_borrower (snd p) (snd q))
          (borrowers s) (borrowers (round_trip s bid uid))"
    unfolding round_trip_def rt
    by (simp, rule map_entry_related) (simp_all add: same_borrower_def)
  have 4: "others_unchanged uid (borrowers s) (borrowers (round_trip s bid uid))"
    by (simp add: round_trip_def rt others_unchanged_map_entry)
  have 5: "round_trip s bid uid = s"
    if "\<forall>r. map_of (borrowers s) uid = Some r \<longrightarrow> bid \<notin> set (borrowed_books r)"
    using that * by (intro round_trip_exact [OF *]) blast
  from 1 2 3 4 5 show ?thesis by blast
qed

theorem checkout_return_round_trip_witness:
  "fst (checkout_book lib0 ''BOOK_0001'' ''USER_0001'')
   \<and> fst (return_book (snd (checkout_book lib0 ''BOOK_0001'' ''USER_0001''))
          ''BOOK_0001'' ''USER_0001'')
   \<and> round_trip lib0 ''BOOK_0001'' ''USER_0001'' = lib0"
proof -
  have c: "fst (checkout_book lib0 ''BOOK_0001'' ''USER_0001'')"
    by (simp add: checkout_book_def can_borrow_def save_def lib0_def book1_def joe_def
        MAX_BOOKS_def)
  have n: "\<forall>r. map_of (borrowers lib0) ''USER_0001'' = Some r
             \<longrightarrow> ''BOOK_0001'' \<notin> set (borrowed_books r)"
    by (simp add: lib0_def joe_def)
  show ?thesis
    using c n checkout_return_round_trip [OF c] by simp
qed

text \<open>
  Where the borrower already lists the book although it is marked available, the round
  trip keeps the held books and changes their order: \<open>list.remove\<close> deletes the first
  occurrence, not the one the checkout appended.
\<close>

lemma round_trip_stale_order:
  "map_of (borrowers (round_trip lib_stale ''BOOK_0001'' ''USER_0001'')) ''USER_0001''
     = Some (joe\<lparr>borrowed_books := [''BOOK_0002'', ''BOOK_0001'']\<rparr>)"
  by (simp add: round_trip_def checkout_book_def return_book_def borrow_book_def
      Borrower_return_book_def can_borrow_def save_def MAX_BOOKS_def lib_stale_def book1_def
      joe_def held_def)

section \<open>Constructing a book\<close>

text \<open>
  Claim C7. Constructing a \<open>Book\<close> with a genre outside \<open>GENRES\<close> raises \<open>ValueError\<close> and
  yields no book; with a genre of \<open>GENRES\<close> it yields the book with the genre as given.
\<close>

theorem Book_init_genre:
  "(g \<notin> set GENRES \<longrightarrow> Book_init bid t a g av = Inl ValueError)
   \<and> (g \<in> set GENRES \<longrightarrow>
        Book_init bid t a g av
          = Inr \<lparr>book_id = bid, title = t, author = a, genre = g, available = av\<rparr>)"
  by (simp add: Book_init_def)

theorem Book_init_genre_witness:
  "Book_init ''BOOK_0001'' ''A'' ''X'' ''fiction'' True = Inl ValueError
   \<and> Book_init ''BOOK_0001'' ''A'' ''X'' ''Fiction'' True = Inr book1"
  using Book_init_genre [of "''fiction''" "''BOOK_0001''" "''A''" "''X''" True]
    Book_init_genre [of "''Fiction''" "''BOOK_0001''" "''A''" "''X''" True]
  by (simp add: GENRES_def book1_def)

section \<open>Identifier assignment\<close>

lemma split_on_not_Nil: "split_on c xs \<noteq> []"
  by (induction xs) (auto split: list.splits)

lemma split_on_no_sep: "c \<notin> set xs \<Longrightarrow> split_on c xs = [xs]"
  by (induction xs) auto

lemma split_on_first: "c \<notin> set p \<Longrightarrow> split_on c (p @ c # rest) = p # split_on c rest"
  by (induction p) auto

lemma digit_char_cases:
  assumes "d < 10"
  shows "digit_val (digit_char d) = Some d \<and> digit_char d \<in> set ''0123456789''"
proof -
  from assms have "d \<in> {0, 1, 2, 3, 4, 5, 6, 7, 8, 9}" by auto
  then show ?thesis
    by (elim insertE emptyE) (simp_all add: digit_char_def digit_val_def)
qed

lemma set_dec: "set (dec n) \<subseteq> set ''0123456789''"
proof (induction n rule: dec.induct)
  case (1 n)
  show ?case
  proof (cases "n < 10")
    case True
    then show ?thesis using digit_char_cases [of n] by (subst dec.simps) simp
  next
    case False
    then show ?thesis
      using 1 digit_char_cases [of "n mod 10"] by (subst dec.simps) simp
  qed
qed

lemma dec_not_Nil: "dec n \<noteq> []"
  by (subst dec.simps) simp

lemma parse_digits_snoc:
  "parse_digits acc (xs @ [c]) =
     (case parse_digits acc xs of
        None \<Rightarrow> None
      | Some m \<Rightarrow> (case digit_val c of None \<Rightarrow> None | Some d \<Rightarrow> Some (10 * m + d)))"
  by (induction xs arbitrary: acc) (auto split: option.splits)

lemma parse_digits_dec: "parse_digits 0 (dec n) = Some n"
proof (induction n rule: dec.induct)
  case (1 n)
  show ?case
  proof (cases "n < 10")
    case True
    then show ?thesis using digit_char_cases [of n] by (subst dec.simps) simp
  next
    case False
    then show ?thesis
      using 1 digit_char_cases [of "n mod 10"]
      by (subst dec.simps) (simp add: parse_digits_snoc)
  qed
qed

lemma parse_digits_zeros: "parse_digits 0 (replicate k CHR ''0'' @ xs) = parse_digits 0 xs"
  by (induction k) (simp_all add: digit_val_def)

lemma set_zfill: "set (zfill w (dec n)) \<subseteq> set ''0123456789''"
  using set_dec [of n] by (auto simp: zfill_def)

lemma length_dec_le: "0 < k \<Longrightarrow> n < 10 ^ k \<Longrightarrow> length (dec n) \<le> k"
proof (induction k arbitrary: n)
  case 0
  then show ?case by simp
next
  case (Suc k)
  show ?case
  proof (cases "n < 10")
    case True
    then show ?thesis by (subst dec.simps) simp
  next
    case False
    with Suc.prems have k: "0 < k" by (cases k) auto
    from Suc.prems have "n div 10 < 10 ^ k" by (simp add: less_mult_imp_div_less mult.commute)
    with k have "length (dec (n div 10)) \<le> k" by (rule Suc.IH)
    with False show ?thesis by (subst dec.simps) simp
  qed
qed

lemma fmt_04d_nat: "fmt_04d (int n) = zfill 4 (dec n)"
  by (simp add: fmt_04d_def)

lemma fmt_04d_form:
  "set (fmt_04d (int n)) \<subseteq> set ''0123456789'' \<and> 4 \<le> length (fmt_04d (int n))
   \<and> (n < 10000 \<longrightarrow> length (fmt_04d (int n)) = 4)"
proof -
  have "length (dec n) \<le> 4" if "n < 10000"
    using length_dec_le [of 4 n] that by simp
  then show ?thesis
    unfolding fmt_04d_nat using set_zfill [of 4 n] by (auto simp: zfill_def)
qed

lemma dropWhile_none: "(\<And>x. x \<in> set xs \<Longrightarrow> \<not> P x) \<Longrightarrow> dropWhile P xs = xs"
  by (cases xs) auto

lemma py_int_fmt: "py_int (fmt_04d (int n)) = Inr (int n)"
proof -
  let ?t = "fmt_04d (int n)"
  have dig: "set ?t \<subseteq> set ''0123456789''" using fmt_04d_form by blast
  have ne: "?t \<noteq> []" using fmt_04d_form [of n] by auto
  have nosp: "\<not> py_isspace x" if "x \<in> set ?t" for x
    using that dig by (auto simp: py_isspace_def)
  have "dropWhile py_isspace ?t = ?t"
    using nosp by (rule dropWhile_none)
  moreover have "dropWhile py_isspace (rev ?t) = rev ?t"
    using nosp by (intro dropWhile_none) simp
  ultimately have strip: "py_strip ?t = ?t"
    unfolding py_strip_def by simp
  have "hd ?t \<in> set ?t" using ne by simp
  with dig have hd: "hd ?t \<noteq> CHR ''-''" "hd ?t \<noteq> CHR ''+''" by auto
  have val: "parse_digits 0 ?t = Some n"
    unfolding fmt_04d_nat zfill_def by (simp add: parse_digits_zeros parse_digits_dec)
  show ?thesis
    unfolding py_int_def strip using ne hd val by (simp add: Let_def)
qed

lemma suffix_number_make_id:
  assumes "CHR ''_'' \<notin> set p"
  shows "suffix_number (make_id p n) = Inr (int n)"
proof -
  have "CHR ''_'' \<notin> set (fmt_04d (int n))" using fmt_04d_form [of n] by auto
  then have "split_on CHR ''_'' (make_id p n) = [p, fmt_04d (int n)]"
    unfolding make_id_def using assms split_on_first [OF assms, of "fmt_04d (int n)"]
    by (simp add: split_on_no_sep)
  then show ?thesis by (simp add: suffix_number_def py_int_fmt)
qed

lemma numbers_of_make_id:
  "\<forall>(p, n) \<in> set pns. CHR ''_'' \<notin> set p \<Longrightarrow>
     numbers_of (map (\<lambda>(p, n). make_id p n) pns) = Inr (map (\<lambda>(p, n). int n) pns)"
  by (induction pns) (auto simp: suffix_number_make_id)

lemma fold_max_int: "fold max (map int ns) (int n) = int (fold max ns n)"
  by (induction ns arbitrary: n) (simp_all add: of_nat_max [symmetric])

lemma py_max_int: "ns \<noteq> [] \<Longrightarrow> py_max (map int ns) = int (Max (set ns))"
proof (cases ns)
  case Nil
  assume "ns \<noteq> []"
  with Nil show ?thesis by simp
next
  case (Cons a as)
  have "Max (set (a # as)) = fold max as a" by (rule Max.set_eq_fold)
  with Cons show ?thesis by (simp only: py_max.simps list.map fold_max_int)
qed

text \<open>
  Claim C8, as amended. \<open>generate_id\<close> is a function of its two arguments. On the empty
  list it returns \<open>{PREFIX}_0001\<close>. On a non-empty list of ids of the form
  \<open>{P}_{number}\<close>, with \<open>P\<close> free of \<open>_\<close> and the number written as \<open>generate_id\<close> writes it,
  it returns \<open>{PREFIX}_{m + 1}\<close> where \<open>m\<close> is the greatest number among all the ids of
  the list, whatever their prefixes. The number is written in decimal with zeros up to
  four digits: four digits below 10000, more from there on.
\<close>

theorem generate_id_next:
  "generate_id prefix [] = Inr (prefix @ ''_0001'')
   \<and> (pns \<noteq> [] \<and> (\<forall>(p, n) \<in> set pns. CHR ''_'' \<notin> set p) \<longrightarrow>
        generate_id prefix (map (\<lambda>(p, n). make_id p n) pns)
          = Inr (make_id prefix (Max (set (map snd pns)) + 1)))
   \<and> (\<exists>ds. make_id prefix n = prefix @ ''_'' @ ds \<and> set ds \<subseteq> set ''0123456789''
          \<and> 4 \<le> length ds \<and> (n < 10000 \<longrightarrow> length ds = 4))"
proof (intro conjI impI)
  show "generate_id prefix [] = Inr (prefix @ ''_0001'')"
    by (simp add: generate_id_def)
next
  assume a: "pns \<noteq> [] \<and> (\<forall>(p, n) \<in> set pns. CHR ''_'' \<notin> set p)"
  then have nums: "numbers_of (map (\<lambda>(p, n). make_id p n) pns) = Inr (map int (map snd pns))"
    by (simp add: numbers_of_make_id case_prod_beta comp_def)
  from a have "map snd pns \<noteq> []" by simp
  then have "py_max (map int (map snd pns)) = int (Max (set (map snd pns)))"
    by (rule py_max_int)
  then show "generate_id prefix (map (\<lambda>(p, n). make_id p n) pns)
          = Inr (make_id prefix (Max (set (map snd pns)) + 1))"
    using a nums by (simp add: generate_id_def make_id_def add.commute)
next
  show "\<exists>ds. make_id prefix n = prefix @ ''_'' @ ds \<and> set ds \<subseteq> set ''0123456789''
          \<and> 4 \<le> length ds \<and> (n < 10000 \<longrightarrow> length ds = 4)"
    using fmt_04d_form [of n] unfolding make_id_def by blast
qed

theorem generate_id_next_witness:
  "generate_id ''USER'' [] = Inr ''USER_0001''
   \<and> generate_id ''BOOK'' [''BOOK_0001'', ''BOOK_0002''] = Inr ''BOOK_0003''
   \<and> generate_id ''BOOK'' [''BOOK_0001'', ''USER_0007'', ''BOOK_0002''] = Inr ''BOOK_0008''"
  using generate_id_next [of "''USER''" "[]" 1]
    generate_id_next [of "''BOOK''" "[(''BOOK'', 1), (''BOOK'', 2)]" 3]
    generate_id_next [of "''BOOK''" "[(''BOOK'', 1), (''USER'', 7), (''BOOK'', 2)]" 8]
  by (simp add: make_id_def fmt_04d_def zfill_def dec.simps digit_char_def numeral_3_eq_3)

text \<open>
  The claim as first worded fails: the ids of other prefixes count (no \<open>BOOK\<close> id exists
  in the first list, and the result is not \<open>BOOK_0001\<close>), the number has five digits after
  9999, and an id without a numeric second piece makes the call raise.
\<close>

theorem generate_id_counterexample:
  "generate_id ''BOOK'' [''USER_0005''] = Inr ''BOOK_0006''
   \<and> generate_id ''BOOK'' [''BOOK_9999''] = Inr ''BOOK_10000''
   \<and> generate_id ''BOOK'' [''BOOK''] = Inl IndexError
   \<and> generate_id ''BOOK'' [''BOOK_0001'', ''BOOK_x''] = Inl ValueError"
proof -
  have n1: "numbers_of [''USER_0005''] = Inr [5]"
    by (simp add: suffix_number_def py_int_def py_strip_def py_isspace_def digit_val_def)
  have n2: "numbers_of [''BOOK_9999''] = Inr [9999]"
    by (simp add: suffix_number_def py_int_def py_strip_def py_isspace_def digit_val_def)
  have n3: "numbers_of [''BOOK''] = Inl IndexError"
    by (simp add: suffix_number_def)
  have n4: "numbers_of [''BOOK_0001'', ''BOOK_x''] = Inl ValueError"
    by (simp add: suffix_number_def py_int_def py_strip_def py_isspace_def digit_val_def)
  have f1: "fmt_04d 6 = ''0006''"
    by (simp add: fmt_04d_def zfill_def dec.simps digit_char_def numeral_3_eq_3)
  have f2: "fmt_04d 10000 = ''10000''"
    by (simp add: fmt_04d_def zfill_def dec.simps digit_char_def)
  show ?thesis
    unfolding generate_id_def n1 n2 n3 n4 by (simp add: f1 f2)
qed

section \<open>Search\<close>





text \<open>
  Two titles that the interpreter lowers to the same text match, whatever the letters:
  the record is returned as soon as \<open>lower\<close> sends its title and the criterion to the same
  string.
\<close>

lemma search_items_same_lowered:
  assumes "lower a = lower b"
  shows "search_items lower [[(''title'', VStr a)]] [(''title'', VStr b)]
           = [[(''title'', VStr a)]]"
  using assms by (simp add: search_items_def)

lemma search_items_other_lowered:
  assumes "lower a \<noteq> lower b"
  shows "search_items lower [[(''title'', VStr a)]] [(''title'', VStr b)] = []"
  using assms by (simp add: search_items_def)

end
